theory Spec2Isabelle
  imports Main
begin

unbundle bit_operations_syntax

section \<open>Data model\<close>

text \<open>
  The cedar is a double-array trie: \<open>array\<close> holds one slot per node id and \<open>info\<close> the
  per-node child and sibling labels. The query surface (\<open>Jump\<close>, \<open>Key\<close>, \<open>vKeyOf\<close>,
  \<open>Get\<close>, \<open>Insert\<close>, \<open>Update\<close>, \<open>Delete\<close>, \<open>FindOne\<close>, \<open>FindAll\<close>) is embedded
  from \<open>api.go\<close>. Keys are byte strings (\<open>string\<close>, one \<open>char\<close> per byte), node ids
  and stored integers are Go \<open>int\<close>s (modelled as \<open>int\<close>, the 64-bit wrap-around written out
  where a sum can overflow).
\<close>

datatype error = ErrNoPath | ErrNoValue | ErrInvalidKey | ErrInvalidValue

text \<open>A call either returns normally or stops in a Go run-time panic (index out of range).\<close>

datatype 'a res = Ret 'a | Panic

text \<open>
  Modelled from the spec: the slot record of \<open>array\<close>. \<open>api.go\<close> reads the fields \<open>Value\<close>
  and \<open>Check\<close> and calls the accessor \<open>base()\<close>, which is declared outside \<open>api.go\<close>;
  the spec (3.1) gives the slot the three integers base, check and value, so \<open>base()\<close> is
  the field \<open>Base\<close>.
\<close>

record node =
  Value :: int
  Check :: int
  Base :: int

text \<open>Modelled from the spec (3.2): the node-info record read as \<open>da.info[i]\<close>.\<close>

record ninfo =
  Sibling :: char
  Child :: char
  End :: bool

text \<open>
  The entry of the value side-table, built in \<open>Insert\<close> as \<open>nvalue{Len: klen, Value: value}\<close>;
  the field \<open>Value\<close> is \<open>Val\<close> here, the slot's field having that name already.
\<close>

record 'v nvalue =
  Len :: int
  Val :: 'v

text \<open>
  Modelled from the spec: the cedar, whose declaration is outside \<open>api.go\<close>. \<open>api.go\<close> uses
  the slices \<open>da.array\<close> and \<open>da.info\<close>, the map \<open>da.vals\<close> and \<open>da.capacity\<close>. The two
  slices are a store from indices to records together with their common length
  \<open>capacity\<close>; \<open>vals\<close> is the value side-table (spec 3.4) and \<open>vkey\<close> the value-key counter
  (spec 4.E).
\<close>

record 'v Cedar =
  array :: "int \<Rightarrow> node"
  info :: "int \<Rightarrow> ninfo"
  capacity :: int
  vals :: "int \<rightharpoonup> 'v nvalue"
  vkey :: int

text \<open>
  Indexing a Go slice: \<open>None\<close> stands for the index-out-of-range panic. \<open>slot da i\<close> is
  \<open>da.array[i]\<close> and \<open>ninf da i\<close> is \<open>da.info[i]\<close>.
\<close>

definition slot :: "'v Cedar \<Rightarrow> int \<Rightarrow> node option" where
  "slot da i = (if 0 \<le> i \<and> i < capacity da then Some (array da i) else None)"

definition ninf :: "'v Cedar \<Rightarrow> int \<Rightarrow> ninfo option" where
  "ninf da i = (if 0 \<le> i \<and> i < capacity da then Some (info da i) else None)"

definition star :: char where
  "star = CHR ''*''"

definition nul :: char where
  "nul = CHR 0x00"

section \<open>Jump\<close>

text \<open>
  \<open>Jump\<close> ranges over the bytes of \<open>path\<close>; \<open>to\<close> is the named result, zero until the
  first step assigns it. On failure Go returns \<open>(from, ErrNoPath)\<close>.
\<close>

fun Jump_loop :: "'v Cedar \<Rightarrow> string \<Rightarrow> int \<Rightarrow> int \<Rightarrow> (int \<times> error option) res" where
  "Jump_loop da [] from to = Ret (to, None)"
| "Jump_loop da (b # path) from to =
     (case slot da from of
        None \<Rightarrow> Panic
      | Some n \<Rightarrow>
          if Value n \<ge> 0 then Ret (from, Some ErrNoPath)
          else let to' = Base n XOR of_char b in
            (case slot da to' of
               None \<Rightarrow> Panic
             | Some m \<Rightarrow>
                 if Check m \<noteq> from then Ret (from, Some ErrNoPath)
                 else Jump_loop da path to' to'))"

definition Jump :: "'v Cedar \<Rightarrow> string \<Rightarrow> int \<Rightarrow> (int \<times> error option) res" where
  "Jump da path from = Jump_loop da path from 0"

section \<open>Key, vKeyOf and Get\<close>

text \<open>
  \<open>Key\<close> climbs from \<open>id\<close> to the root through \<open>Check\<close>, collecting the label bytes that are
  not zero, and reverses what it collected. The climb has no bound of its own (a cycle of
  \<open>Check\<close> links would keep it running), so the loop is a partial function: \<open>None\<close> is
  "does not return".
\<close>

partial_function (option) Key_loop ::
  "'v Cedar \<Rightarrow> int \<Rightarrow> string \<Rightarrow> (error + int \<times> string) res option" where
  "Key_loop da nid key =
     (if nid > 0 then
        (case slot da nid of
           None \<Rightarrow> Some Panic
         | Some n \<Rightarrow>
             let from = Check n in
             if from < 0 then Some (Ret (Inl ErrNoPath))
             else
               (case slot da from of
                  None \<Rightarrow> Some Panic
                | Some m \<Rightarrow>
                    let c = (char_of (Base m XOR nid) :: char) in
                    Key_loop da from (if c \<noteq> nul then key @ [c] else key)))
      else Some (Ret (Inr (nid, key))))"

definition Key :: "'v Cedar \<Rightarrow> int \<Rightarrow> (error + string) res option" where
  "Key da nid =
     (case Key_loop da nid [] of
        None \<Rightarrow> None
      | Some Panic \<Rightarrow> Some Panic
      | Some (Ret (Inl e)) \<Rightarrow> Some (Ret (Inl e))
      | Some (Ret (Inr (nid', key))) \<Rightarrow>
          if nid' \<noteq> 0 \<or> length key = 0 then Some (Ret (Inl ErrInvalidKey))
          else Some (Ret (Inr (rev key))))"

definition vKeyOf :: "'v Cedar \<Rightarrow> int \<Rightarrow> (error + int) res" where
  "vKeyOf da nid =
     (case slot da nid of
        None \<Rightarrow> Panic
      | Some n \<Rightarrow>
          if Value n \<ge> 0 then Ret (Inr (Value n))
          else let to = Base n in
            (case slot da to of
               None \<Rightarrow> Panic
             | Some m \<Rightarrow>
                 if Check m = nid \<and> Value m \<ge> 0 then Ret (Inr (Value m))
                 else Ret (Inl ErrNoValue)))"

definition Get :: "'v Cedar \<Rightarrow> string \<Rightarrow> (error + 'v) res" where
  "Get da key =
     (case Jump da key 0 of
        Panic \<Rightarrow> Panic
      | Ret (to, Some e) \<Rightarrow> Ret (Inl e)
      | Ret (to, None) \<Rightarrow>
          (case vKeyOf da to of
             Panic \<Rightarrow> Panic
           | Ret (Inl e) \<Rightarrow> Ret (Inl ErrNoValue)
           | Ret (Inr vk) \<Rightarrow>
               (case vals da vk of
                  Some v \<Rightarrow> Ret (Inr (Val v))
                | None \<Rightarrow> Ret (Inl ErrNoValue))))"

section \<open>The trie engine\<close>

text \<open>
  The functions that \<open>api.go\<close> calls below itself (\<open>NewCedar\<close>, \<open>vKey\<close>, \<open>get\<close>,
  \<open>pushEnode\<close>, \<open>popSibling\<close>, \<open>hasLabel\<close>, \<open>child\<close>, \<open>isEnd\<close>) and the constant
  \<open>valueLimit\<close> are declared outside \<open>api.go\<close>; each definition of this section follows
  the spec's description of it. The block directory and the in-band free ring (spec 3.3,
  4.C/D) only decide which free slot is handed out: here a slot other than the root is free
  iff its \<open>Check\<close> is negative, free slots are handed out in index order, and the arrays
  double when no slot fits.
\<close>

text \<open>
  Modelled from the spec: the contents of a free slot (spec 3.1: \<open>check\<close> and \<open>base\<close> of a
  free slot are negative ring links, its value is negative) and of a node-info without
  child, sibling or end flag (spec 3.2). The ring links themselves are not tracked.
\<close>

definition free_node :: node where
  "free_node = \<lparr>Value = -1, Check = -1, Base = -1\<rparr>"

definition no_info :: ninfo where
  "no_info = \<lparr>Sibling = nul, Child = nul, End = False\<rparr>"

text \<open>
  Modelled from the spec: \<open>valueLimit\<close>, the bound of \<open>Update\<close> (spec 6: implementation-chosen,
  at least \<open>2^31 - 1\<close>); taken as the largest Go \<open>int\<close>.
\<close>

definition valueLimit :: int where
  "valueLimit = 2 ^ 63 - 1"

text \<open>
  Modelled from the spec: \<open>NewCedar\<close> (spec 3.5, Create): two blocks of 256 slots; slot 0 is
  the root, whose \<open>Check\<close> is the no-parent sentinel \<open>-1\<close> (spec 3.1); every other slot is free.
\<close>

definition NewCedar :: "'v Cedar" where
  "NewCedar =
     \<lparr>array = (\<lambda>i. free_node)(0 := \<lparr>Value = -1, Check = -1, Base = 0\<rparr>),
      info = (\<lambda>i. no_info),
      capacity = 512,
      vals = Map.empty,
      vkey = 0\<rparr>"

text \<open>
  Modelled from the spec: \<open>vKey\<close> (spec 4.E): a counter produces the next value-key at each
  insert, with no reuse.
\<close>

definition vKey :: "'v Cedar \<Rightarrow> 'v Cedar \<times> int" where
  "vKey da = (da\<lparr>vkey := vkey da + 1\<rparr>, vkey da)"

text \<open>
  Modelled from the spec: a slot is free when it is not occupied, that is when its \<open>check\<close>
  is negative (spec 3.3); slot 0 is the root and never free.
\<close>

definition is_free :: "'v Cedar \<Rightarrow> int \<Rightarrow> bool" where
  "is_free da i = (i \<noteq> 0 \<and> (case slot da i of None \<Rightarrow> False | Some n \<Rightarrow> Check n < 0))"

text \<open>
  Modelled from the spec: the search for a base (spec 4.E, "finds a new base \<open>b'\<close> such that
  \<open>b' XOR c'\<close> is free for every \<open>c'\<close> in the moving set"). The candidates are the free slots
  \<open>e\<close> in index order, tried as the place of the first label.
\<close>

definition fits :: "'v Cedar \<Rightarrow> string \<Rightarrow> int \<Rightarrow> bool" where
  "fits da ls b = list_all (\<lambda>c. is_free da (b XOR of_char c)) ls"

function first_fit :: "'v Cedar \<Rightarrow> string \<Rightarrow> char \<Rightarrow> int \<Rightarrow> int option" where
  "first_fit da ls c0 e =
     (if e \<ge> capacity da then None
      else if fits da ls (e XOR of_char c0) then Some (e XOR of_char c0)
      else first_fit da ls c0 (e + 1))"
  by pat_completeness auto
termination
  by (relation "measure (\<lambda>(da, ls, c0, e). nat (capacity da - e))") auto

definition find_base :: "'v Cedar \<Rightarrow> string \<Rightarrow> int option" where
  "find_base da ls =
     (case ls of
        [] \<Rightarrow> None
      | c0 # _ \<Rightarrow> first_fit da ls c0 1)"

text \<open>Modelled from the spec: growth (spec 4.A): capacity doubles, the new range is free.\<close>

definition grow :: "'v Cedar \<Rightarrow> 'v Cedar" where
  "grow da =
     da\<lparr>array := (\<lambda>i. if i < capacity da then array da i else free_node),
        info := (\<lambda>i. if i < capacity da then info da i else no_info),
        capacity := 2 * capacity da\<rparr>"

text \<open>
  Modelled from the spec: allocation of a base for the labels \<open>ls\<close> (spec 4.E): in the
  current arrays if a base fits, else in the arrays grown once.
\<close>

definition alloc :: "'v Cedar \<Rightarrow> string \<Rightarrow> ('v Cedar \<times> int) option" where
  "alloc da ls =
     (case find_base da ls of
        Some b \<Rightarrow> Some (da, b)
      | None \<Rightarrow>
          (case find_base (grow da) ls of
             Some b \<Rightarrow> Some (grow da, b)
           | None \<Rightarrow> None))"

text \<open>
  Modelled from the spec: the engine's writes and reads of \<open>array\<close> and \<open>info\<close>. The engine
  only touches slots of the arrays; a write or read outside them is left without effect
  (\<open>free_node\<close>, \<open>no_info\<close>).
\<close>

definition set_node :: "'v Cedar \<Rightarrow> int \<Rightarrow> node \<Rightarrow> 'v Cedar" where
  "set_node da i n = (if 0 \<le> i \<and> i < capacity da then da\<lparr>array := (array da)(i := n)\<rparr> else da)"

definition set_info :: "'v Cedar \<Rightarrow> int \<Rightarrow> ninfo \<Rightarrow> 'v Cedar" where
  "set_info da i n = (if 0 \<le> i \<and> i < capacity da then da\<lparr>info := (info da)(i := n)\<rparr> else da)"

definition node_at :: "'v Cedar \<Rightarrow> int \<Rightarrow> node" where
  "node_at da i = (case slot da i of Some n \<Rightarrow> n | None \<Rightarrow> free_node)"

definition info_at :: "'v Cedar \<Rightarrow> int \<Rightarrow> ninfo" where
  "info_at da i = (case ninf da i of Some n \<Rightarrow> n | None \<Rightarrow> no_info)"

text \<open>
  Modelled from the spec: the edge tests (spec 4.E, child addressing; spec 4.H): \<open>hasLabel\<close>
  ("nid has a \<open>c\<close> edge": the slot \<open>base XOR c\<close> names \<open>nid\<close> as its parent), \<open>child\<close> (the
  node \<open>base XOR c\<close>) and \<open>isEnd\<close> (the \<open>end\<close> flag of spec 3.2: the node terminates an
  inserted key).
\<close>

definition hasLabel :: "'v Cedar \<Rightarrow> int \<Rightarrow> char \<Rightarrow> bool" where
  "hasLabel da nid label =
     (case slot da nid of
        None \<Rightarrow> False
      | Some n \<Rightarrow>
          (case slot da (Base n XOR of_char label) of
             None \<Rightarrow> False
           | Some m \<Rightarrow> Check m = nid))"

definition child :: "'v Cedar \<Rightarrow> int \<Rightarrow> char \<Rightarrow> int" where
  "child da nid label = Base (node_at da nid) XOR of_char label"

definition isEnd :: "'v Cedar \<Rightarrow> int \<Rightarrow> bool" where
  "isEnd da nid = End (info_at da nid)"

text \<open>
  Modelled from the spec: the child ring (spec 3.2): \<open>Child\<close> of the parent, then \<open>Sibling\<close>
  repeatedly, ending at 0. The terminal child under label 0 (spec 4.E, Deletion; spec 4.G,
  Value and begin) has the smallest label and is the head of the ring: when it exists,
  \<open>Child\<close> is 0 and the ring goes on from its \<open>Sibling\<close>. A parent has at most 256 labels,
  which bounds the traversal.
\<close>

fun ring_from :: "nat \<Rightarrow> 'v Cedar \<Rightarrow> int \<Rightarrow> char \<Rightarrow> string" where
  "ring_from 0 da b c = []"
| "ring_from (Suc f) da b c =
     (if c = nul then []
      else (case ninf da (b XOR of_char c) of
              None \<Rightarrow> [c]
            | Some i \<Rightarrow> c # ring_from f da b (Sibling i)))"

definition ring :: "'v Cedar \<Rightarrow> int \<Rightarrow> string" where
  "ring da p =
     (case (slot da p, ninf da p) of
        (Some n, Some i) \<Rightarrow>
          if hasLabel da p nul
          then nul # ring_from 256 da (Base n) (Sibling (info_at da (Base n)))
          else ring_from 256 da (Base n) (Child i)
      | _ \<Rightarrow> [])"

text \<open>
  Modelled from the spec: "p has no children" (spec 4.E, step 1). \<open>Child\<close> is 0 both for a
  node without children and for a node whose first child is the terminal child under label
  0, so that child is looked at as well.
\<close>

definition has_children :: "'v Cedar \<Rightarrow> int \<Rightarrow> bool" where
  "has_children da p = (Child (info_at da p) \<noteq> nul \<or> hasLabel da p nul)"

text \<open>
  Modelled from the spec: claiming a free slot \<open>e\<close> for the parent \<open>p\<close> (spec 4.E, steps 1
  and 2): its \<open>check\<close> becomes \<open>p\<close>.
\<close>

definition claim :: "'v Cedar \<Rightarrow> int \<Rightarrow> int \<Rightarrow> 'v Cedar" where
  "claim da e p = set_node da e ((node_at da e)\<lparr>Check := p\<rparr>)"

text \<open>
  Modelled from the spec: \<open>pushEnode\<close> (spec 4.C/D, push free slot): the slot goes back to
  the free slots; its value becomes negative (spec 3.1) and its node-info is cleared, so that
  a slot claimed later starts without children.
\<close>

definition pushEnode :: "'v Cedar \<Rightarrow> int \<Rightarrow> 'v Cedar" where
  "pushEnode da e = set_info (set_node da e free_node) e no_info"

text \<open>
  Modelled from the spec: inserting the label \<open>c\<close> of the claimed slot into the child ring
  of \<open>p\<close> (spec 4.E, step 2): labels stay sorted ascending and \<open>Child\<close> points at the
  smallest.
\<close>

definition pushSibling :: "'v Cedar \<Rightarrow> int \<Rightarrow> char \<Rightarrow> string \<Rightarrow> 'v Cedar" where
  "pushSibling da p c labels =
     (let b = Base (node_at da p);
          e = b XOR of_char c;
          lo = takeWhile (\<lambda>l. (of_char l :: nat) < of_char c) labels
      in if lo = [] then
           set_info (set_info da e ((info_at da e)\<lparr>Sibling := (case labels of [] \<Rightarrow> nul | l # _ \<Rightarrow> l)\<rparr>))
             p ((info_at da p)\<lparr>Child := c\<rparr>)
         else
           let pn = b XOR of_char (last lo) in
           set_info (set_info da e ((info_at da e)\<lparr>Sibling := Sibling (info_at da pn)\<rparr>))
             pn ((info_at da pn)\<lparr>Sibling := c\<rparr>))"

text \<open>
  Modelled from the spec: \<open>popSibling(parent, base, label)\<close> (spec 4.E): the predecessor of
  \<open>label\<close> on the ring is rewired to skip it; if \<open>label\<close> is \<open>parent.child\<close>, \<open>parent.child\<close>
  becomes the next sibling.
\<close>

fun pred_of :: "char \<Rightarrow> string \<Rightarrow> char option" where
  "pred_of l (a # b # r) = (if b = l then Some a else pred_of l (b # r))"
| "pred_of l r = None"

definition popSibling :: "'v Cedar \<Rightarrow> int \<Rightarrow> int \<Rightarrow> char \<Rightarrow> 'v Cedar" where
  "popSibling da parent base label =
     (let nxt = Sibling (info_at da (base XOR of_char label)) in
      if Child (info_at da parent) = label then
        set_info da parent ((info_at da parent)\<lparr>Child := nxt\<rparr>)
      else
        (case pred_of label (ring da parent) of
           None \<Rightarrow> da
         | Some a \<Rightarrow>
             let pn = base XOR of_char a in
             set_info da pn ((info_at da pn)\<lparr>Sibling := nxt\<rparr>)))"

text \<open>
  Modelled from the spec: relocation (spec 4.E, conflict resolution). Every child of \<open>r\<close>
  moves from \<open>base XOR c\<close> to \<open>b' XOR c\<close>: the slot's contents and node-info move, the
  \<open>check\<close> of each child of the moved node is rewritten to the new id, the old slot is
  freed; then \<open>r\<close> gets the base \<open>b'\<close>.
\<close>

definition move_child :: "int \<Rightarrow> int \<Rightarrow> 'v Cedar \<Rightarrow> char \<Rightarrow> 'v Cedar" where
  "move_child b b' da c =
     (let old = b XOR of_char c;
          new = b' XOR of_char c;
          gs = ring da old;
          gb = Base (node_at da old);
          da1 = set_info (set_node da new (node_at da old)) new (info_at da old);
          da2 = fold (\<lambda>g d. set_node d (gb XOR of_char g)
                  ((node_at d (gb XOR of_char g))\<lparr>Check := new\<rparr>)) gs da1
      in pushEnode da2 old)"

definition relocate :: "'v Cedar \<Rightarrow> int \<Rightarrow> int \<Rightarrow> 'v Cedar" where
  "relocate da r b' =
     (let b = Base (node_at da r);
          da1 = fold (\<lambda>c d. move_child b b' d c) (ring da r) da
      in set_node da1 r ((node_at da1 r)\<lparr>Base := b'\<rparr>))"

text \<open>
  Modelled from the spec: one step of \<open>get\<close> (spec 4.E), from the node \<open>p\<close> along the label
  \<open>c\<close>; the result is the new state and the child's id. Where the edge exists the walk
  advances. Otherwise:
  Step 1: \<open>p\<close> has no children: a fresh base is allocated, the slot claimed.
  Step 2: the candidate \<open>q = base XOR c\<close> is free and is claimed.
  Step 3: \<open>q\<close> is occupied by someone else: the smaller sibling set (that of \<open>p\<close>, counted
  with \<open>c\<close>, or that of the occupant's parent) is relocated, then step 2 is taken again.
  A conflict that is still there after relocation is an invariant violation (spec 7).
\<close>

definition step2 :: "'v Cedar \<Rightarrow> int \<Rightarrow> char \<Rightarrow> ('v Cedar \<times> int) option" where
  "step2 da p c =
     (let q = Base (node_at da p) XOR of_char c in
      if is_free da q then
        Some (pushSibling (set_info (claim da q p) q ((info_at da q)\<lparr>Sibling := nul\<rparr>))
                p c (ring da p), q)
      else None)"

definition follow :: "'v Cedar \<Rightarrow> int \<Rightarrow> char \<Rightarrow> ('v Cedar \<times> int) res" where
  "follow da p c =
     (case (slot da p, ninf da p) of
        (Some pn, Some pi) \<Rightarrow>
          if hasLabel da p c then Ret (da, child da p c)
          else if \<not> has_children da p then
            (case alloc da [c] of
               None \<Rightarrow> Panic
             | Some (da1, b) \<Rightarrow>
                 let e = b XOR of_char c;
                     da2 = set_node da1 p (pn\<lparr>Base := b\<rparr>);
                     da3 = claim da2 e p;
                     da4 = set_info da3 p (pi\<lparr>Child := c\<rparr>);
                     da5 = set_info da4 e ((info_at da4 e)\<lparr>Sibling := nul\<rparr>)
                 in Ret (da5, e))
          else
            (case step2 da p c of
               Some r \<Rightarrow> Ret r
             | None \<Rightarrow>
                 let q = Base pn XOR of_char c;
                     p2 = Check (node_at da q);
                     mine = ring da p;
                     theirs = ring da p2
                 in if q = 0 \<or> p2 < 0 \<or> length mine + 1 \<le> length theirs then
                      (case alloc da (mine @ [c]) of
                         None \<Rightarrow> Panic
                       | Some (da1, b') \<Rightarrow>
                           (case step2 (relocate da1 p b') p c of
                              Some r \<Rightarrow> Ret r
                            | None \<Rightarrow> Panic))
                    else
                      (case alloc da theirs of
                         None \<Rightarrow> Panic
                       | Some (da1, b') \<Rightarrow>
                           let p' = (if Check pn = p2 \<and> p \<noteq> 0
                                     then b' XOR (Base (node_at da p2) XOR p) else p)
                           in (case step2 (relocate da1 p2 b') p' c of
                                 Some r \<Rightarrow> Ret r
                               | None \<Rightarrow> Panic)))
      | _ \<Rightarrow> Panic)"

text \<open>
  Modelled from the spec: the terminal child under label 0 (spec 4.E, Deletion: "a terminal
  sometimes lives at \<open>parent.base XOR 0\<close>"; spec 4.G, Value; spec 8, scenario 1, where \<open>Jump\<close>
  passes the node of the stored key \<open>ab\<close>). \<open>Jump\<close> of \<open>api.go\<close> does not leave a node whose
  value is \<open>\<ge> 0\<close>; so before the walk leaves a node that stores a value-key, the value-key
  (with the end flag) moves to the node's child under label 0 and the node becomes
  non-terminal. The result is the new state and the id of the node the walk stands on.
\<close>

definition sink :: "'v Cedar \<Rightarrow> int \<Rightarrow> ('v Cedar \<times> int) res" where
  "sink da from =
     (case slot da from of
        None \<Rightarrow> Panic
      | Some n \<Rightarrow>
          if Value n \<ge> 0 then
            (case follow da from nul of
               Panic \<Rightarrow> Panic
             | Ret (da1, to) \<Rightarrow>
                 let from' = Check (node_at da1 to);
                     da2 = set_node da1 to ((node_at da1 to)\<lparr>Value := Value n\<rparr>);
                     da3 = set_info da2 to ((info_at da2 to)\<lparr>End := End (info_at da2 from')\<rparr>);
                     da4 = set_node da3 from' ((node_at da3 from')\<lparr>Value := -1\<rparr>);
                     da5 = set_info da4 from' ((info_at da4 from')\<lparr>End := False\<rparr>)
                 in Ret (da5, from'))
          else Ret (da, from))"

text \<open>
  Modelled from the spec: \<open>get(key, from, i)\<close> (spec 4.E), the insert-mode walk of
  \<open>key[i..]\<close> from \<open>from\<close>; the first argument below is that suffix of the key. At the end
  of the key the result is the node that holds (or is to hold) the key's value-key: the node
  itself when it is a leaf, its child under label 0 when it has children.
\<close>

fun get :: "'v Cedar \<Rightarrow> string \<Rightarrow> int \<Rightarrow> ('v Cedar \<times> int) res" where
  "get da [] from =
     (case slot da from of
        None \<Rightarrow> Panic
      | Some n \<Rightarrow>
          if Value n < 0 \<and> has_children da from then follow da from nul
          else Ret (da, from))"
| "get da (c # key) from =
     (case sink da from of
        Panic \<Rightarrow> Panic
      | Ret (da1, from1) \<Rightarrow>
          (case follow da1 from1 c of
             Panic \<Rightarrow> Panic
           | Ret (da2, to) \<Rightarrow> get da2 key to))"

section \<open>Insert, Update and Delete\<close>

text \<open>
  \<open>Insert\<close> takes a value-key, walks (and creates) the path with \<open>get\<close>, writes the value-key
  into the slot reached, sets its \<open>End\<close> flag and records the value in \<open>vals\<close>. The mutating
  operations return the new state beside Go's \<open>error\<close> (\<open>None\<close> is \<open>nil\<close>).
\<close>

definition Insert :: "'v Cedar \<Rightarrow> string \<Rightarrow> 'v \<Rightarrow> ('v Cedar \<times> error option) res" where
  "Insert da key v =
     (let (da1, k) = vKey da;
          klen = int (length key)
      in case get da1 key 0 of
           Panic \<Rightarrow> Panic
         | Ret (da2, p) \<Rightarrow>
             (case (slot da2 p, ninf da2 p) of
                (Some n, Some i) \<Rightarrow>
                  let da3 = set_node da2 p (n\<lparr>Value := k\<rparr>);
                      da4 = set_info da3 p (i\<lparr>End := True\<rparr>)
                  in Ret (da4\<lparr>vals := (vals da4)(k \<mapsto> \<lparr>Len = klen, Val = v\<rparr>)\<rparr>, None)
              | _ \<Rightarrow> Panic))"

text \<open>The sum of two Go \<open>int\<close>s: 64 bits, two's complement, wrapping.\<close>

definition wrap64 :: "int \<Rightarrow> int" where
  "wrap64 x = (x + 2 ^ 63) mod 2 ^ 64 - 2 ^ 63"

definition Update :: "'v Cedar \<Rightarrow> string \<Rightarrow> int \<Rightarrow> ('v Cedar \<times> error option) res" where
  "Update da key v =
     (case get da key 0 of
        Panic \<Rightarrow> Panic
      | Ret (da1, nid) \<Rightarrow>
          (case slot da1 nid of
             None \<Rightarrow> Panic
           | Some n \<Rightarrow>
               let s = wrap64 (Value n + v) in
               if s < 0 \<or> s \<ge> valueLimit then Ret (da1, Some ErrInvalidValue)
               else Ret (set_node da1 nid (n\<lparr>Value := s\<rparr>), None)))"

text \<open>
  The release loop of \<open>Delete\<close> has no exit of its own at the root: it stops only at a node
  with a sibling. It is a partial function (\<open>None\<close>: does not return).
\<close>

partial_function (option) Delete_loop :: "'v Cedar \<Rightarrow> int \<Rightarrow> 'v Cedar res option" where
  "Delete_loop da to =
     (case slot da to of
        None \<Rightarrow> Some Panic
      | Some tn \<Rightarrow>
          let from = Check tn in
          (case slot da from of
             None \<Rightarrow> Some Panic
           | Some fn \<Rightarrow>
               let base = Base fn;
                   label = (char_of (to XOR base) :: char)
               in (case ninf da to of
                     None \<Rightarrow> Some Panic
                   | Some ti \<Rightarrow>
                       if Sibling ti \<noteq> nul then
                         Some (Ret (pushEnode (popSibling da from base label) to))
                       else
                         (case ninf da from of
                            None \<Rightarrow> Some Panic
                          | Some fi \<Rightarrow>
                              if Child fi \<noteq> label then
                                Some (Ret (pushEnode (popSibling da from base label) to))
                              else Delete_loop (pushEnode da to) from))))"

definition Delete :: "'v Cedar \<Rightarrow> string \<Rightarrow> ('v Cedar \<times> error option) res option" where
  "Delete da key =
     (case Jump da key 0 of
        Panic \<Rightarrow> Some Panic
      | Ret (to, Some e) \<Rightarrow> Some (Ret (da, Some e))
      | Ret (to, None) \<Rightarrow>
          (case vKeyOf da to of
             Panic \<Rightarrow> Some Panic
           | Ret (Inl e) \<Rightarrow> Some (Ret (da, Some e))
           | Ret (Inr vk) \<Rightarrow>
               if vals da vk = None then Some (Ret (da, Some ErrNoValue))
               else
                 (case slot da to of
                    None \<Rightarrow> Some Panic
                  | Some tn \<Rightarrow>
                      (case (if Value tn < 0 then
                               (case slot da (Base tn) of
                                  None \<Rightarrow> None
                                | Some bn \<Rightarrow> Some (if Check bn = to then Base tn else to))
                             else Some to) of
                         None \<Rightarrow> Some Panic
                       | Some to' \<Rightarrow>
                           (case Delete_loop da to' of
                              None \<Rightarrow> None
                            | Some Panic \<Rightarrow> Some Panic
                            | Some (Ret da') \<Rightarrow> Some (Ret (da', None)))))))"

section \<open>The wildcard search\<close>

text \<open>
  \<open>FindOne\<close> and \<open>FindAll\<close> keep a stack \<open>ss\<close> of frames \<open>(nid, pos)\<close> (bottom first, the top
  is the last element) and a set \<open>m\<close> of visited node ids; both start fresh at each call.
  \<open>sp\<close> points at the frame that was on top when the outer iteration began, unless that frame
  was the root's, which is popped at once (\<open>sp = nil\<close>): \<open>sp\<close> is the index of that frame in
  \<open>ss\<close>, or \<open>None\<close>. \<open>sp.pos++\<close> writes into that frame; a pop always removes the top.
\<close>

type_synonym frame = "int \<times> int"

datatype ctl = Found int | Next "frame list" "int list"

text \<open>The trailing chase \<open>*\<close>, \<open>*\<close>, ... of \<open>FindOne\<close>; it ends at a node without a \<open>*\<close> edge.\<close>

partial_function (option) chase_one :: "'v Cedar \<Rightarrow> int \<Rightarrow> int option option" where
  "chase_one da snid =
     (if \<not> hasLabel da snid star then Some None
      else let s' = child da snid star in
        if isEnd da s' then Some (Some s') else chase_one da s')"

function FindOne_inner ::
  "'v Cedar \<Rightarrow> string \<Rightarrow> int \<Rightarrow> nat option \<Rightarrow> int \<Rightarrow> int \<Rightarrow> frame list \<Rightarrow> int list \<Rightarrow> ctl option"
where
  "FindOne_inner da key e sp i nid ss m =
     (if i > e then Some (Next ss m)
      else
        let spnid = child da nid star;
            hit = (nid \<notin> set m \<and> hasLabel da nid star);
            m1 = (if hit then nid # m else m);
            ss1 = (if hit \<and> \<not> isEnd da spnid \<and> i < e then ss @ [(spnid, i + 1)] else ss)
        in if hit \<and> isEnd da spnid then Some (Found spnid)
           else
             let b = key ! nat i in
             if b \<noteq> star \<and> hasLabel da nid b then
               let nid' = child da nid b in
               if i = e then
                 (if isEnd da nid' then Some (Found nid')
                  else
                    let ss2 = (if sp \<noteq> None then butlast ss1 else ss1) in
                    (case chase_one da nid' of
                       None \<Rightarrow> None
                     | Some (Some t) \<Rightarrow> Some (Found t)
                     | Some None \<Rightarrow> Some (Next ss2 m1)))
               else FindOne_inner da key e sp (i + 1) nid' ss1 m1
             else
               (case sp of
                  Some j \<Rightarrow>
                    let p = snd (ss1 ! j) + 1;
                        ss2 = ss1[j := (fst (ss1 ! j), p)]
                    in Some (Next (if p > e then butlast ss2 else ss2) m1)
                | None \<Rightarrow> Some (Next ss1 m1)))"
  by pat_completeness auto
termination
  by (relation "measure (\<lambda>(da, key, e, sp, i, nid, ss, m). nat (e + 1 - i))") auto

partial_function (option) FindOne_loop ::
  "'v Cedar \<Rightarrow> string \<Rightarrow> int \<Rightarrow> frame list \<Rightarrow> int list \<Rightarrow> int option option" where
  "FindOne_loop da key e ss m =
     (if length ss > 0 then
        let nid = fst (last ss);
            pos = snd (last ss);
            ss1 = (if nid = 0 then butlast ss else ss);
            sp = (if nid = 0 then None else Some (length ss - 1))
        in (case FindOne_inner da key e sp pos nid ss1 m of
              None \<Rightarrow> None
            | Some (Found t) \<Rightarrow> Some (Some t)
            | Some (Next ss' m') \<Rightarrow> FindOne_loop da key e ss' m')
      else Some None)"

definition FindOne :: "'v Cedar \<Rightarrow> string \<Rightarrow> (error + 'v) res option" where
  "FindOne da key =
     (case FindOne_loop da key (int (length key) - 1) [(0, 0)] [] of
        None \<Rightarrow> None
      | Some None \<Rightarrow> Some (Ret (Inl ErrNoPath))
      | Some (Some tnid) \<Rightarrow>
          Some (case vKeyOf da tnid of
                  Panic \<Rightarrow> Panic
                | Ret (Inl e) \<Rightarrow> Ret (Inl ErrNoValue)
                | Ret (Inr vk) \<Rightarrow>
                    (case vals da vk of
                       Some v \<Rightarrow> Ret (Inr (Val v))
                     | None \<Rightarrow> Ret (Inl ErrNoValue))))"

text \<open>
  \<open>FindAll\<close> hands every match to the callback; the model returns the list of the calls
  \<open>(val, rule)\<close> in the order they are made. \<open>report\<close> is the block that looks the value up
  and calls back (\<open>rule\<close> is \<open>nil\<close>, the empty string, when \<open>Key\<close> fails).
\<close>

definition report ::
  "'v Cedar \<Rightarrow> int \<Rightarrow> ('v \<times> string) list \<Rightarrow> ('v \<times> string) list res option" where
  "report da nid cbs =
     (case vKeyOf da nid of
        Panic \<Rightarrow> Some Panic
      | Ret (Inl e) \<Rightarrow> Some (Ret cbs)
      | Ret (Inr vk) \<Rightarrow>
          (case vals da vk of
             None \<Rightarrow> Some (Ret cbs)
           | Some v \<Rightarrow>
               (case Key da nid of
                  None \<Rightarrow> None
                | Some Panic \<Rightarrow> Some Panic
                | Some (Ret (Inl e)) \<Rightarrow> Some (Ret (cbs @ [(Val v, [])]))
                | Some (Ret (Inr rule)) \<Rightarrow> Some (Ret (cbs @ [(Val v, rule)])))))"

partial_function (option) chase_all ::
  "'v Cedar \<Rightarrow> int \<Rightarrow> ('v \<times> string) list \<Rightarrow> ('v \<times> string) list res option" where
  "chase_all da snid cbs =
     (if \<not> hasLabel da snid star then Some (Ret cbs)
      else let s' = child da snid star in
        if isEnd da s' then
          (case report da s' cbs of
             None \<Rightarrow> None
           | Some Panic \<Rightarrow> Some Panic
           | Some (Ret cbs') \<Rightarrow> chase_all da s' cbs')
        else chase_all da s' cbs)"

function FindAll_inner ::
  "'v Cedar \<Rightarrow> string \<Rightarrow> int \<Rightarrow> nat option \<Rightarrow> int \<Rightarrow> int \<Rightarrow> frame list \<Rightarrow> int list
     \<Rightarrow> ('v \<times> string) list \<Rightarrow> (frame list \<times> int list \<times> ('v \<times> string) list) res option"
where
  "FindAll_inner da key e sp i nid ss m cbs =
     (if i > e then Some (Ret (ss, m, cbs))
      else
        let spnid = child da nid star;
            hit = (nid \<notin> set m \<and> hasLabel da nid star);
            m1 = (if hit then nid # m else m);
            ss1 = (if hit \<and> \<not> isEnd da spnid \<and> i < e then ss @ [(spnid, i + 1)] else ss)
        in if hit \<and> isEnd da spnid then
             (case report da spnid cbs of
                None \<Rightarrow> None
              | Some Panic \<Rightarrow> Some Panic
              | Some (Ret cbs') \<Rightarrow> Some (Ret (ss, m1, cbs')))
           else
             let b = key ! nat i in
             if b \<noteq> star \<and> hasLabel da nid b then
               let nid' = child da nid b in
               if i = e then
                 (case chase_all da nid' cbs of
                    None \<Rightarrow> None
                  | Some Panic \<Rightarrow> Some Panic
                  | Some (Ret cbs1) \<Rightarrow>
                      if isEnd da nid' then
                        (case report da nid' cbs1 of
                           None \<Rightarrow> None
                         | Some Panic \<Rightarrow> Some Panic
                         | Some (Ret cbs2) \<Rightarrow>
                             Some (Ret (if sp \<noteq> None then butlast ss1 else ss1, m1, cbs2)))
                      else
                        (case sp of
                           Some j \<Rightarrow>
                             let p = snd (ss1 ! j) + 1;
                                 ss2 = ss1[j := (fst (ss1 ! j), p)]
                             in FindAll_inner da key e sp (i + 1) nid'
                                  (if p > e then butlast ss2 else ss2) m1 cbs1
                         | None \<Rightarrow> FindAll_inner da key e sp (i + 1) nid' ss1 m1 cbs1))
               else FindAll_inner da key e sp (i + 1) nid' ss1 m1 cbs
             else
               (case sp of
                  Some j \<Rightarrow>
                    let p = snd (ss1 ! j) + 1;
                        ss2 = ss1[j := (fst (ss1 ! j), p)]
                    in Some (Ret (if p > e then butlast ss2 else ss2, m1, cbs))
                | None \<Rightarrow> Some (Ret (ss1, m1, cbs))))"
  by pat_completeness auto
termination
  by (relation "measure (\<lambda>(da, key, e, sp, i, nid, ss, m, cbs). nat (e + 1 - i))") auto

text \<open>The equation of \<open>FindAll_inner\<close> is unfolded step by step in the proofs, not by \<open>simp\<close>.\<close>

declare FindAll_inner.simps [simp del]

partial_function (option) FindAll_loop ::
  "'v Cedar \<Rightarrow> string \<Rightarrow> int \<Rightarrow> frame list \<Rightarrow> int list \<Rightarrow> ('v \<times> string) list
     \<Rightarrow> ('v \<times> string) list res option" where
  "FindAll_loop da key e ss m cbs =
     (if length ss > 0 then
        let nid = fst (last ss);
            pos = snd (last ss);
            ss1 = (if nid = 0 then butlast ss else ss);
            sp = (if nid = 0 then None else Some (length ss - 1))
        in (case FindAll_inner da key e sp pos nid ss1 m cbs of
              None \<Rightarrow> None
            | Some Panic \<Rightarrow> Some Panic
            | Some (Ret (ss', m', cbs')) \<Rightarrow> FindAll_loop da key e ss' m' cbs')
      else Some (Ret cbs))"

definition FindAll :: "'v Cedar \<Rightarrow> string \<Rightarrow> ('v \<times> string) list res option" where
  "FindAll da key = FindAll_loop da key (int (length key) - 1) [(0, 0)] [] []"

section \<open>PrefixPredict\<close>

text \<open>
  \<open>begin\<close> descends through \<open>Child\<close> labels to a node without one, \<open>next\<close> climbs through
  \<open>Check\<close> to a node with a sibling and descends again (\<open>cedar_begin\<close> and \<open>cedar_next\<close>
  below: the source's names are keywords here). Neither loop has a bound of its own.
\<close>

partial_function (option) begin_loop :: "'v Cedar \<Rightarrow> int \<Rightarrow> char \<Rightarrow> int res option" where
  "begin_loop da from c =
     (if c \<noteq> nul then
        (case slot da from of
           None \<Rightarrow> Some Panic
         | Some n \<Rightarrow>
             let to = Base n XOR of_char c in
             (case ninf da to of
                None \<Rightarrow> Some Panic
              | Some i \<Rightarrow> begin_loop da to (Child i)))
      else
        (case slot da from of
           None \<Rightarrow> Some Panic
         | Some n \<Rightarrow> if Base n > 0 then Some (Ret (Base n)) else Some (Ret from)))"

definition cedar_begin :: "'v Cedar \<Rightarrow> int \<Rightarrow> int res option" where
  "cedar_begin da from =
     (case ninf da from of
        None \<Rightarrow> Some Panic
      | Some i \<Rightarrow> begin_loop da from (Child i))"

partial_function (option) next_loop ::
  "'v Cedar \<Rightarrow> int \<Rightarrow> int \<Rightarrow> char \<Rightarrow> (int \<times> char) res option" where
  "next_loop da from root c =
     (if c = nul \<and> from \<noteq> root then
        (case slot da from of
           None \<Rightarrow> Some Panic
         | Some n \<Rightarrow>
             if Check n \<ge> 0 then
               (case ninf da (Check n) of
                  None \<Rightarrow> Some Panic
                | Some i \<Rightarrow> next_loop da (Check n) root (Sibling i))
             else Some (Ret (from, c)))
      else Some (Ret (from, c)))"

definition cedar_next :: "'v Cedar \<Rightarrow> int \<Rightarrow> int \<Rightarrow> (int \<times> error option) res option" where
  "cedar_next da from root =
     (case ninf da from of
        None \<Rightarrow> Some Panic
      | Some i \<Rightarrow>
          (case next_loop da from root (Sibling i) of
             None \<Rightarrow> None
           | Some Panic \<Rightarrow> Some Panic
           | Some (Ret (from', c)) \<Rightarrow>
               if from' = root then Some (Ret (0, Some ErrNoPath))
               else
                 (case slot da from' of
                    None \<Rightarrow> Some Panic
                  | Some n \<Rightarrow>
                      (case slot da (Check n) of
                         None \<Rightarrow> Some Panic
                       | Some pn \<Rightarrow>
                           (case cedar_begin da (Base pn XOR of_char c) of
                              None \<Rightarrow> None
                            | Some Panic \<Rightarrow> Some Panic
                            | Some (Ret to) \<Rightarrow> Some (Ret (to, None)))))))"

partial_function (option) PrefixPredict_loop ::
  "'v Cedar \<Rightarrow> int \<Rightarrow> int \<Rightarrow> int list \<Rightarrow> int \<Rightarrow> int list res option" where
  "PrefixPredict_loop da root from ids num =
     (if num - 1 = 0 then Some (Ret (ids @ [from]))
      else
        (case cedar_next da from root of
           None \<Rightarrow> None
         | Some Panic \<Rightarrow> Some Panic
         | Some (Ret (from', Some e)) \<Rightarrow> Some (Ret (ids @ [from]))
         | Some (Ret (from', None)) \<Rightarrow> PrefixPredict_loop da root from' (ids @ [from]) (num - 1)))"

definition PrefixPredict :: "'v Cedar \<Rightarrow> string \<Rightarrow> int \<Rightarrow> int list res option" where
  "PrefixPredict da key num =
     (case Jump da key 0 of
        Panic \<Rightarrow> Some Panic
      | Ret (root, Some e) \<Rightarrow> Some (Ret [])
      | Ret (root, None) \<Rightarrow>
          (case cedar_begin da root of
             None \<Rightarrow> None
           | Some Panic \<Rightarrow> Some Panic
           | Some (Ret from) \<Rightarrow> PrefixPredict_loop da root from [] num))"

section \<open>Auxiliary notions for the statements\<close>

text \<open>The state after an \<open>Insert\<close> or an \<open>Update\<close>, and the error an operation returns.\<close>

definition inserted :: "'v Cedar \<Rightarrow> string \<Rightarrow> 'v \<Rightarrow> 'v Cedar" where
  "inserted da key v = (case Insert da key v of Ret (da', e) \<Rightarrow> da' | Panic \<Rightarrow> da)"

definition updated :: "'v Cedar \<Rightarrow> string \<Rightarrow> int \<Rightarrow> 'v Cedar" where
  "updated da key v = (case Update da key v of Ret (da', e) \<Rightarrow> da' | Panic \<Rightarrow> da)"

definition err_of :: "('s \<times> error option) res \<Rightarrow> error option res" where
  "err_of r = (case r of Ret (s, e) \<Rightarrow> Ret e | Panic \<Rightarrow> Panic)"

text \<open>
  The node that holds the value-key which \<open>vKeyOf(nid)\<close> finds: \<open>nid\<close> itself when its
  value is \<open>\<ge> 0\<close>, else its child under label 0, which is the node \<open>base\<close>.
\<close>

definition holder :: "'v Cedar \<Rightarrow> int \<Rightarrow> int" where
  "holder da nid = (if Value (node_at da nid) \<ge> 0 then nid else Base (node_at da nid))"

text \<open>The node at which the walk of \<open>Update\<close> (its call of \<open>get\<close>) ends.\<close>

definition got :: "'v Cedar \<Rightarrow> string \<Rightarrow> int" where
  "got da key = (case get da key 0 of Ret (da', nid) \<Rightarrow> nid | Panic \<Rightarrow> 0)"

text \<open>The range of a Go \<open>int\<close>.\<close>

definition in_int64 :: "int \<Rightarrow> bool" where
  "in_int64 x = (- (2 ^ 63) \<le> x \<and> x < 2 ^ 63)"

text \<open>
  The nodes of the patterns \<open>a*c\<close>, \<open>abc\<close> and \<open>a*\<close> in a trie that holds them, and what
  holding them means for the edges: the root has the edge \<open>a\<close> and no \<open>*\<close> edge; the node of
  \<open>a\<close> has the edges \<open>*\<close> and \<open>b\<close>; the nodes of \<open>ab\<close> and \<open>a*\<close> have the edge \<open>c\<close> and no
  \<open>*\<close> edge; the nodes of \<open>abc\<close> and \<open>a*c\<close>, which are leaves, have no \<open>*\<close> edge and end a key.
  Nothing is said on where the end flag and the value-key of \<open>a*\<close> live (in its node, which
  has a child, or in that node's child under label 0).
\<close>

definition node_a :: "'v Cedar \<Rightarrow> int" where
  "node_a da = child da 0 CHR ''a''"

definition node_as :: "'v Cedar \<Rightarrow> int" where
  "node_as da = child da (node_a da) star"

definition node_ab :: "'v Cedar \<Rightarrow> int" where
  "node_ab da = child da (node_a da) CHR ''b''"

definition node_abc :: "'v Cedar \<Rightarrow> int" where
  "node_abc da = child da (node_ab da) CHR ''c''"

definition node_asc :: "'v Cedar \<Rightarrow> int" where
  "node_asc da = child da (node_as da) CHR ''c''"

definition abc_patterns :: "'v Cedar \<Rightarrow> bool" where
  "abc_patterns da =
     (hasLabel da 0 CHR ''a'' \<and> \<not> hasLabel da 0 star
      \<and> hasLabel da (node_a da) star \<and> hasLabel da (node_a da) CHR ''b''
      \<and> hasLabel da (node_ab da) CHR ''c'' \<and> \<not> hasLabel da (node_ab da) star
      \<and> hasLabel da (node_as da) CHR ''c'' \<and> \<not> hasLabel da (node_as da) star
      \<and> \<not> hasLabel da (node_abc da) star \<and> \<not> hasLabel da (node_asc da) star
      \<and> isEnd da (node_abc da) \<and> isEnd da (node_asc da)
      \<and> node_as da \<noteq> 0)"

text \<open>
  A three-slot state for \<open>Jump\<close>: the root 0 has the edge \<open>a\<close> to node 1, node 1 has the
  edge \<open>b\<close> to node 2 (\<open>96 XOR 97 = 1\<close>, \<open>96 XOR 98 = 2\<close>); \<open>v\<close> is the integer stored
  in node 1, which is terminal when \<open>v \<ge> 0\<close>.
\<close>

definition jump_demo :: "int \<Rightarrow> unit Cedar" where
  "jump_demo v =
     \<lparr>array = (\<lambda>i. free_node)
                (0 := \<lparr>Value = -1, Check = -1, Base = 96\<rparr>,
                 1 := \<lparr>Value = v, Check = 0, Base = 96\<rparr>,
                 2 := \<lparr>Value = -1, Check = 1, Base = -1\<rparr>),
      info = (\<lambda>i. no_info)
               (0 := \<lparr>Sibling = nul, Child = CHR ''a'', End = False\<rparr>,
                1 := \<lparr>Sibling = nul, Child = CHR ''b'', End = (v \<ge> 0)\<rparr>),
      capacity = 3, vals = Map.empty, vkey = 0\<rparr>"

text \<open>
  What the comment of \<open>Jump\<close> in \<open>api.go\<close> says of a trie holding \<open>ab\<close>, \<open>abc\<close> and
  \<open>abcd\<close>: \<open>Jump\<close> reaches the node of \<open>ab\<close> from the root and the nodes of \<open>abc\<close> and \<open>abcd\<close>
  from the node of \<open>ab\<close>, and \<open>Get\<close> reads the three values back.
\<close>

definition passes_stored_keys :: "int Cedar \<Rightarrow> bool" where
  "passes_stored_keys da =
     (Jump da ''ab'' 0 = Ret (2, None)
      \<and> Jump da ''c'' 2 = Ret (96, None)
      \<and> Jump da ''cd'' 2 = Ret (97, None)
      \<and> Get da ''ab'' = Ret (Inr 23)
      \<and> Get da ''abc'' = Ret (Inr 19)
      \<and> Get da ''abcd'' = Ret (Inr 37))"

text \<open>The keys \<open>a\<close> and \<open>a\<close> followed by a zero byte both read the value 2.\<close>

definition zero_suffix_alias :: "int Cedar \<Rightarrow> bool" where
  "zero_suffix_alias da =
     (Get da (''a'' @ [nul]) = Ret (Inr 2) \<and> Get da ''a'' = Ret (Inr 2))"

section \<open>Properties of Jump\<close>

lemma Jump_loop_append:
  "Jump_loop da (p @ q) from to =
     (case Jump_loop da p from from of
        Ret (mid, None) \<Rightarrow> Jump_loop da q mid (if p = [] then to else mid)
      | Ret (x, Some e) \<Rightarrow> Ret (x, Some e)
      | Panic \<Rightarrow> Panic)"
proof (induction p arbitrary: "from" to)
  case Nil
  show ?case by simp
next
  case (Cons b p)
  have nil: "p = [] \<Longrightarrow> Jump_loop da p t t = Ret (t, None)" for t
    by simp
  show ?case
    using Cons.IH nil
    by (cases "p = []") (auto simp: Let_def split: option.splits res.splits prod.splits)
qed

lemma Jump_loop_terminal:
  assumes "slot da mid = Some n" and "Value n \<ge> 0"
  shows "Jump_loop da (b # q) mid to = Ret (mid, Some ErrNoPath)"
  using assms by simp

text \<open>
  C6, as stated, fails: the terminal test is made at every step of the walk, on the node
  about to be left. In \<open>jump_demo 7\<close> the start node 0 is not terminal and both edges of the
  path \<open>ab\<close> exist, yet \<open>Jump\<close> fails with \<open>ErrNoPath\<close> at node 1, reached after the first
  step; with the same arrays and node 1 not terminal the walk reaches node 2.
\<close>

theorem Jump_intermediate_terminal_counterexample:
  "Jump (jump_demo 7) ''ab'' 0 = Ret (1, Some ErrNoPath)
   \<and> Jump (jump_demo (-1)) ''ab'' 0 = Ret (2, None)"
  by (simp add: Jump_def jump_demo_def slot_def nul_def)

text \<open>
  C6, amended. \<open>Jump\<close> fails with \<open>ErrNoPath\<close>, returning the node it stands on, whenever
  that node is terminal (stored value \<open>\<ge> 0\<close>) and a byte of the path is left to follow:
  this holds for the start node (\<open>p = []\<close>) and for every node \<open>mid\<close> reached at an
  intermediate step (after a non-empty prefix \<open>p\<close> of the path).
\<close>

theorem Jump_terminal_any_step:
  assumes "p = [] \<and> mid = from \<or> p \<noteq> [] \<and> Jump da p from = Ret (mid, None)"
    and "slot da mid = Some n"
    and "Value n \<ge> 0"
  shows "Jump da (p @ b # q) from = Ret (mid, Some ErrNoPath)"
proof (cases "p = []")
  case True
  with assms show ?thesis
    by (simp add: Jump_def)
next
  case False
  with assms(1) have "Jump_loop da p from 0 = Ret (mid, None)"
    by (simp add: Jump_def)
  moreover have "Jump_loop da p from from = Jump_loop da p from 0"
    using False by (cases p) simp_all
  ultimately have "Jump_loop da p from from = Ret (mid, None)"
    by simp
  then have "Jump_loop da (p @ b # q) from 0 = Jump_loop da (b # q) mid mid"
    using False by (simp add: Jump_loop_append [of da p "b # q" "from" 0] del: Jump_loop.simps)
  with assms(2,3) show ?thesis
    by (simp add: Jump_def Jump_loop_terminal)
qed

text \<open>The amended C6 at the path \<open>abcd\<close>, whose prefix \<open>a\<close> ends at the terminal node 1.\<close>

theorem Jump_terminal_any_step_witness:
  "Jump (jump_demo 7) ''a'' 0 = Ret (1, None)
   \<and> slot (jump_demo 7) 1 = Some \<lparr>Value = 7, Check = 0, Base = 96\<rparr>
   \<and> Jump (jump_demo 7) (''a'' @ CHR ''b'' # ''cd'') 0 = Ret (1, Some ErrNoPath)"
proof -
  have j: "Jump (jump_demo 7) ''a'' 0 = Ret (1, None)"
    by (simp add: Jump_def jump_demo_def slot_def nul_def)
  have n: "slot (jump_demo 7) 1 = Some \<lparr>Value = 7, Check = 0, Base = 96\<rparr>"
    by (simp add: jump_demo_def slot_def)
  have "Jump (jump_demo 7) (''a'' @ CHR ''b'' # ''cd'') 0 = Ret (1, Some ErrNoPath)"
    by (rule Jump_terminal_any_step [where n = "\<lparr>Value = 7, Check = 0, Base = 96\<rparr>"])
      (use j n in simp_all)
  with j n show ?thesis by simp
qed

text \<open>
  C10. With an empty path \<open>Jump\<close> returns node id 0 and no error, whatever the start
  node \<open>from\<close> is: the loop body never runs and the named result \<open>to\<close> keeps its zero value.
\<close>

theorem Jump_empty_path: "Jump da [] from = Ret (0, None)"
  by (simp add: Jump_def)

section \<open>Key inverts Jump\<close>

lemma xor_cancel_int: "(a::int) XOR (a XOR b) = b"
  by (simp add: xor.assoc [symmetric])

lemma Jump_loop_snoc:
  assumes "Jump_loop da (p @ [b]) from from = Ret (nid, None)"
  shows "\<exists>mid n m. Jump_loop da p from from = Ret (mid, None)
           \<and> slot da mid = Some n \<and> Value n < 0
           \<and> nid = Base n XOR of_char b
           \<and> slot da nid = Some m \<and> Check m = mid"
proof -
  obtain mid where mid: "Jump_loop da p from from = Ret (mid, None)"
    and last: "Jump_loop da [b] mid (if p = [] then from else mid) = Ret (nid, None)"
    using assms
    by (auto simp: Jump_loop_append [of da p "[b]"] simp del: Jump_loop.simps
        split: res.splits prod.splits option.splits)
  from last show ?thesis
    using mid by (auto simp: Let_def split: option.splits if_splits)
qed

lemma slot_Some_range: "slot da i = Some x \<Longrightarrow> 0 \<le> i \<and> i < capacity da"
  by (auto simp: slot_def split: if_splits)

lemma Key_loop_climb:
  assumes root: "slot da 0 = Some r" "Check r < 0"
  shows "Jump_loop da p from from = Ret (nid, None) \<Longrightarrow> nul \<notin> set p
         \<Longrightarrow> Key_loop da nid acc = Key_loop da from (acc @ rev p)"
proof (induction p arbitrary: nid acc rule: rev_induct)
  case Nil
  then show ?case by simp
next
  case (snoc b p)
  from Jump_loop_snoc [OF snoc.prems(1)]
  obtain mid n m where mid: "Jump_loop da p from from = Ret (mid, None)"
    and n: "slot da mid = Some n"
    and nid: "nid = Base n XOR of_char b"
    and m: "slot da nid = Some m" "Check m = mid"
    by blast
  have mid0: "0 \<le> mid" using slot_Some_range [OF n] by simp
  have "nid \<noteq> 0"
  proof
    assume "nid = 0"
    with m root have "Check r = mid" by simp
    with root(2) mid0 show False by simp
  qed
  moreover have "0 \<le> nid" using slot_Some_range [OF m(1)] by simp
  ultimately have pos: "nid > 0" by simp
  have b: "b \<noteq> nul" using snoc.prems(2) by auto
  have c: "(char_of (Base n XOR nid) :: char) = b"
    by (simp add: nid xor_cancel_int)
  have "Key_loop da nid acc = Key_loop da mid (acc @ [b])"
    using pos m n mid0 b c by (subst Key_loop.simps) (simp add: Let_def)
  also have "\<dots> = Key_loop da from ((acc @ [b]) @ rev p)"
    using snoc.IH [OF mid] snoc.prems(2) by simp
  finally show ?case by simp
qed

text \<open>
  C5, as stated, fails for a key that contains a zero byte: \<open>Key\<close> drops every zero label
  it meets on the climb. After \<open>Insert\<close> of the two-byte key \<open>a\<close>, \<open>0x00\<close> into the empty
  cedar, \<open>Jump\<close> of that key succeeds with node 2 and \<open>Key(2)\<close> is the one-byte string \<open>a\<close>
  (\<open>Key_zero_byte_counterexample\<close>, stated after the amended theorem).

  C5, amended. In a cedar whose root slot carries the no-parent sentinel (\<open>Check < 0\<close>), for
  every non-empty key \<open>k\<close> without a zero byte: if \<open>Jump(k, 0)\<close> succeeds with node \<open>id\<close>,
  then \<open>Key(id)\<close> returns exactly \<open>k\<close>.
\<close>

theorem Key_inverts_Jump:
  assumes "slot da 0 = Some r" and "Check r < 0"
    and "k \<noteq> []" and "nul \<notin> set k"
    and "Jump da k 0 = Ret (nid, None)"
  shows "Key da nid = Some (Ret (Inr k))"
proof -
  have "Jump_loop da k 0 0 = Ret (nid, None)"
    using assms(5) by (simp add: Jump_def)
  from Key_loop_climb [OF assms(1,2) this assms(4), of "[]"]
  have "Key_loop da nid [] = Key_loop da 0 (rev k)" by simp
  also have "\<dots> = Some (Ret (Inr (0, rev k)))"
    by (subst Key_loop.simps) simp
  finally show ?thesis
    using assms(3) by (simp add: Key_def)
qed

text \<open>
  The counterexample to C5 as stated: the inserted key \<open>a\<close>, \<open>0x00\<close> is reached by \<open>Jump\<close>
  at node 2, and \<open>Key(2)\<close> is \<open>a\<close>.
\<close>

theorem Key_zero_byte_counterexample:
  "err_of (Insert (NewCedar :: int Cedar) [CHR ''a'', nul] 1) = Ret None
   \<and> Jump (inserted (NewCedar :: int Cedar) [CHR ''a'', nul] 1) [CHR ''a'', nul] 0 = Ret (2, None)
   \<and> Key (inserted (NewCedar :: int Cedar) [CHR ''a'', nul] 1) 2 = Some (Ret (Inr ''a''))"
  unfolding Key_def
  apply code_simp
  apply (subst Key_loop.simps)
  apply code_simp
  apply (subst Key_loop.simps)
  apply code_simp
  apply (subst Key_loop.simps)
  apply code_simp
  done

text \<open>The amended C5 at the inserted key \<open>ab\<close>.\<close>

theorem Key_inverts_Jump_witness:
  "slot (inserted (NewCedar :: int Cedar) ''ab'' 1) 0 = Some \<lparr>Value = -1, Check = -1, Base = 96\<rparr>
   \<and> Jump (inserted (NewCedar :: int Cedar) ''ab'' 1) ''ab'' 0 = Ret (2, None)
   \<and> Key (inserted (NewCedar :: int Cedar) ''ab'' 1) 2 = Some (Ret (Inr ''ab''))"
proof -
  let ?da = "inserted (NewCedar :: int Cedar) ''ab'' 1"
  have r: "slot ?da 0 = Some \<lparr>Value = -1, Check = -1, Base = 96\<rparr>"
    by code_simp
  have j: "Jump ?da ''ab'' 0 = Ret (2, None)"
    by code_simp
  have z: "nul \<notin> set ''ab''"
    by code_simp
  have "Key ?da 2 = Some (Ret (Inr ''ab''))"
    using Key_inverts_Jump [OF r _ _ z j] by simp
  with r j show ?thesis by simp
qed

section \<open>Update\<close>

text \<open>
  On a key that is present, the insert-mode walk \<open>get\<close> follows the existing edges, ends
  at the node that holds the key's value-key, and changes nothing.
\<close>

lemma ninf_of_slot: "slot da i = Some n \<Longrightarrow> ninf da i = Some (info da i)"
  by (simp add: slot_def ninf_def split: if_splits)

lemma node_at_slot: "slot da i = Some n \<Longrightarrow> node_at da i = n"
  by (simp add: node_at_def)

lemma follow_edge:
  assumes "slot da from = Some n" and "slot da (Base n XOR of_char c) = Some m"
    and "Check m = from"
  shows "follow da from c = Ret (da, Base n XOR of_char c)"
proof -
  have "ninf da from = Some (info da from)"
    using assms(1) by (rule ninf_of_slot)
  moreover have "hasLabel da from c"
    using assms by (simp add: hasLabel_def)
  moreover have "child da from c = Base n XOR of_char c"
    using assms(1) by (simp add: child_def node_at_slot)
  ultimately show ?thesis
    using assms(1) by (simp add: follow_def)
qed

lemma get_walk:
  "Jump_loop da k from from = Ret (nid, None) \<Longrightarrow> get da k from = get da [] nid"
proof (induction k arbitrary: "from")
  case Nil
  then show ?case by simp
next
  case (Cons c k)
  from Cons.prems obtain n m where n: "slot da from = Some n" and v: "Value n < 0"
    and m: "slot da (Base n XOR of_char c) = Some m" "Check m = from"
    and rest: "Jump_loop da k (Base n XOR of_char c) (Base n XOR of_char c) = Ret (nid, None)"
    by (auto simp: Let_def split: option.splits if_splits)
  have s: "sink da from = Ret (da, from)"
    using n v by (simp add: sink_def)
  have f: "follow da from c = Ret (da, Base n XOR of_char c)"
    using n m by (rule follow_edge)
  have "get da (c # k) from = get da k (Base n XOR of_char c)"
    using s f by simp
  then show ?case
    using Cons.IH [OF rest] by simp
qed

lemma get_holder:
  assumes "vKeyOf da nid = Ret (Inr s)"
  shows "get da [] nid = Ret (da, holder da nid)
         \<and> 0 \<le> s \<and> slot da (holder da nid) = Some (node_at da (holder da nid))
         \<and> Value (node_at da (holder da nid)) = s"
proof -
  from assms obtain n where n: "slot da nid = Some n"
    by (auto simp: vKeyOf_def split: option.splits)
  show ?thesis
  proof (cases "0 \<le> Value n")
    case True
    then show ?thesis
      using assms n by (simp add: vKeyOf_def holder_def node_at_slot)
  next
    case False
    with assms n obtain m where m: "slot da (Base n) = Some m" "Check m = nid" "0 \<le> Value m"
      and s: "s = Value m"
      by (auto simp: vKeyOf_def Let_def split: option.splits if_splits)
    have z: "Base n XOR of_char nul = Base n"
      by (simp add: nul_def)
    have "hasLabel da nid nul"
      using n m by (simp add: hasLabel_def z)
    then have h: "has_children da nid"
      by (simp add: has_children_def)
    have "follow da nid nul = Ret (da, Base n)"
      using follow_edge [of da nid n nul m] n m by (simp add: z)
    then show ?thesis
      using False n m s h by (simp add: holder_def node_at_slot)
  qed
qed

lemma wrap64_id: "- (2 ^ 63) \<le> x \<Longrightarrow> x < 2 ^ 63 \<Longrightarrow> wrap64 x = x"
  by (simp add: wrap64_def)

lemma wrap64_high: "2 ^ 63 \<le> x \<Longrightarrow> x < 2 ^ 64 \<Longrightarrow> wrap64 x < 0"
proof -
  assume a: "2 ^ 63 \<le> x" "x < 2 ^ 64"
  have "(x + 2 ^ 63) mod 2 ^ 64 = x + 2 ^ 63 - 2 ^ 64"
  proof -
    have "(x + 2 ^ 63) mod 2 ^ 64 = (x + 2 ^ 63 - 2 ^ 64) mod 2 ^ 64"
      by (metis mod_diff_right_eq mod_self diff_zero)
    also have "\<dots> = x + 2 ^ 63 - 2 ^ 64"
      using a by (intro mod_pos_pos_trivial) simp_all
    finally show ?thesis .
  qed
  then show ?thesis using a by (simp add: wrap64_def)
qed

text \<open>
  C7. Let the key \<open>k\<close> be present in the trie: \<open>Jump(k, 0)\<close> reaches a node \<open>nid\<close> and
  \<open>vKeyOf(nid)\<close> finds a stored integer \<open>s\<close> there (in the node itself or in its child under
  label 0), as \<open>Get\<close> does; \<open>s\<close> and the delta \<open>d\<close> are Go \<open>int\<close>s. Then \<open>Update(k, d)\<close>
  returns \<open>ErrInvalidValue\<close> if and only if \<open>s + d\<close> is outside \<open>[0, valueLimit)\<close>; in that case
  the whole state is returned unchanged, otherwise only the stored integer changes, to the
  sum.
\<close>

theorem Update_present:
  assumes "Jump da k 0 = Ret (nid, None)" and "vKeyOf da nid = Ret (Inr s)"
    and "in_int64 s" and "in_int64 d"
  shows "Update da k d =
           (if s + d < 0 \<or> valueLimit \<le> s + d then Ret (da, Some ErrInvalidValue)
            else Ret (set_node da (holder da nid)
                        ((node_at da (holder da nid))\<lparr>Value := s + d\<rparr>), None))"
proof -
  have "get da k 0 = get da [] nid"
    using assms(1) by (simp add: Jump_def get_walk)
  with get_holder [OF assms(2)]
  have g: "get da k 0 = Ret (da, holder da nid)"
    and s0: "0 \<le> s"
    and h: "slot da (holder da nid) = Some (node_at da (holder da nid))"
    and v: "Value (node_at da (holder da nid)) = s"
    by simp_all
  show ?thesis
  proof (cases "s + d < 2 ^ 63")
    case True
    then have "wrap64 (s + d) = s + d"
      using s0 assms(4) by (intro wrap64_id) (simp_all add: in_int64_def)
    then show ?thesis
      using g h v by (simp add: Update_def Let_def)
  next
    case False
    then have "wrap64 (s + d) < 0"
      using assms(3,4) by (intro wrap64_high) (simp_all add: in_int64_def)
    moreover have "valueLimit \<le> s + d"
      using False by (simp add: valueLimit_def)
    ultimately show ?thesis
      using g h v by (simp add: Update_def Let_def)
  qed
qed

text \<open>
  C7 at the key \<open>a\<close> after \<open>Insert("a", 7)\<close> and \<open>Insert("ab", 8)\<close>: the stored integer of
  \<open>a\<close> (its value-key 0) lives in the child under label 0 of node 1; the delta \<open>-1\<close> is
  refused, the delta 5 is accepted.
\<close>

theorem Update_present_witness:
  "Jump (inserted (inserted (NewCedar :: int Cedar) ''a'' 7) ''ab'' 8) ''a'' 0 = Ret (1, None)
   \<and> vKeyOf (inserted (inserted (NewCedar :: int Cedar) ''a'' 7) ''ab'' 8) 1 = Ret (Inr 0)
   \<and> in_int64 0 \<and> in_int64 (-1) \<and> in_int64 5
   \<and> err_of (Update (inserted (inserted (NewCedar :: int Cedar) ''a'' 7) ''ab'' 8) ''a'' (-1))
       = Ret (Some ErrInvalidValue)
   \<and> err_of (Update (inserted (inserted (NewCedar :: int Cedar) ''a'' 7) ''ab'' 8) ''a'' 5)
       = Ret None"
proof -
  let ?da = "inserted (inserted (NewCedar :: int Cedar) ''a'' 7) ''ab'' 8"
  have j: "Jump ?da ''a'' 0 = Ret (1, None)" by code_simp
  have k: "vKeyOf ?da 1 = Ret (Inr 0)" by code_simp
  have s: "in_int64 0" and d1: "in_int64 (-1)" and d2: "in_int64 5"
    by (simp_all add: in_int64_def)
  have "err_of (Update ?da ''a'' (-1)) = Ret (Some ErrInvalidValue)"
    using Update_present [OF j k s d1] by (simp add: err_of_def)
  moreover have "err_of (Update ?da ''a'' 5) = Ret None"
    using Update_present [OF j k s d2] by (simp add: err_of_def valueLimit_def)
  ultimately show ?thesis using j k s d1 d2 by simp
qed

text \<open>
  \<open>get\<close> and everything below it leave the value side-table alone.
\<close>

lemma vals_set_node: "vals (set_node da i n) = vals da"
  by (simp add: set_node_def)

lemma vals_set_info: "vals (set_info da i n) = vals da"
  by (simp add: set_info_def)

lemma vals_claim: "vals (claim da e p) = vals da"
  by (simp add: claim_def vals_set_node)

lemma vals_pushEnode: "vals (pushEnode da e) = vals da"
  by (simp add: pushEnode_def vals_set_node vals_set_info)

lemma vals_pushSibling: "vals (pushSibling da p c ls) = vals da"
  by (simp add: pushSibling_def Let_def vals_set_info)

lemma vals_grow: "vals (grow da) = vals da"
  by (simp add: grow_def)

lemma vals_fold:
  assumes "\<And>x d. vals (f x d) = vals d"
  shows "vals (fold f xs da) = vals da"
  using assms by (induction xs arbitrary: da) simp_all

lemma vals_move_child: "vals (move_child b b' da c) = vals da"
  by (simp add: move_child_def Let_def vals_fold vals_set_node vals_set_info vals_pushEnode)

lemma vals_relocate: "vals (relocate da r b') = vals da"
  by (simp add: relocate_def Let_def vals_fold vals_set_node vals_move_child)

lemmas vals_simps =
  vals_set_node vals_set_info vals_claim vals_pushEnode vals_pushSibling vals_grow
  vals_move_child vals_relocate

lemma vals_alloc: "alloc da ls = Some (da1, b) \<Longrightarrow> vals da1 = vals da"
  by (auto simp: alloc_def vals_grow split: option.splits)

lemma vals_step2: "step2 da p c = Some (da1, q) \<Longrightarrow> vals da1 = vals da"
  by (auto simp: step2_def Let_def vals_simps split: option.splits if_splits)

lemma vals_follow:
  assumes "follow da p c = Ret (da1, q)"
  shows "vals da1 = vals da"
proof -
  obtain pn pi where p: "slot da p = Some pn" "ninf da p = Some pi"
    using assms by (auto simp: follow_def split: option.splits)
  show ?thesis
  proof (cases "hasLabel da p c")
    case True
    then show ?thesis
      using assms p by (simp add: follow_def)
  next
    case False
    note noedge = this
    show ?thesis
    proof (cases "has_children da p")
      case False
      then obtain d b where a: "alloc da [c] = Some (d, b)"
        using assms p noedge by (auto simp: follow_def split: option.splits)
      then show ?thesis
        using assms p noedge False vals_alloc [OF a]
        by (auto simp: follow_def Let_def vals_simps)
    next
      case True
      note kids = this
      show ?thesis
      proof (cases "step2 da p c")
        case (Some r)
        then show ?thesis
          using assms p noedge kids vals_step2 [of da p c da1 q] by (simp add: follow_def)
      next
        case None
        define q0 where "q0 = Base pn XOR of_char c"
        define p2 where "p2 = Check (node_at da q0)"
        show ?thesis
        proof (cases "q0 = 0 \<or> p2 < 0 \<or> length (ring da p) + 1 \<le> length (ring da p2)")
          case True
          then obtain d b where a: "alloc da (ring da p @ [c]) = Some (d, b)"
            and s: "step2 (relocate d p b) p c = Some (da1, q)"
            using assms p noedge kids None
            by (auto simp: follow_def Let_def q0_def p2_def split: option.splits)
          show ?thesis
            using vals_step2 [OF s] vals_alloc [OF a] by (simp add: vals_simps)
        next
          case False
          then obtain d b p' where a: "alloc da (ring da p2) = Some (d, b)"
            and s: "step2 (relocate d p2 b) p' c = Some (da1, q)"
            using assms p noedge kids None
            by (auto simp: follow_def Let_def q0_def p2_def split: option.splits)
          show ?thesis
            using vals_step2 [OF s] vals_alloc [OF a] by (simp add: vals_simps)
        qed
      qed
    qed
  qed
qed

lemma vals_sink:
  assumes "sink da from = Ret (da1, from1)"
  shows "vals da1 = vals da"
proof -
  obtain n where n: "slot da from = Some n"
    using assms by (auto simp: sink_def split: option.splits)
  show ?thesis
  proof (cases "0 \<le> Value n")
    case False
    then show ?thesis
      using assms n by (simp add: sink_def)
  next
    case True
    then obtain d t where f: "follow da from nul = Ret (d, t)"
      using assms n by (auto simp: sink_def split: res.splits)
    show ?thesis
      using assms n True f vals_follow [OF f]
      by (auto simp: sink_def Let_def vals_simps)
  qed
qed

lemma vals_get: "get da k from = Ret (da1, nid) \<Longrightarrow> vals da1 = vals da"
proof (induction k arbitrary: da "from")
  case Nil
  then show ?case
    by (auto split: option.splits if_splits dest: vals_follow)
next
  case (Cons c k)
  then obtain d0 f0 d t where s: "sink da from = Ret (d0, f0)"
    and f: "follow d0 f0 c = Ret (d, t)" and g: "get d k t = Ret (da1, nid)"
    by (auto split: res.splits)
  show ?case
    using Cons.IH [OF g] vals_follow [OF f] vals_sink [OF s] by simp
qed

text \<open>
  Whatever \<open>Update\<close> returns, the value side-table is as before. After a successful
  \<open>Update(k, d)\<close> the integer stored in the node of \<open>k\<close> is non-negative, and if \<open>Jump(k, 0)\<close>
  reaches that node, \<open>Get(k)\<close> reads the stored integer as a value-key: it answers with the
  side-table's entry under that integer, whichever key the entry belongs to, and with
  \<open>ErrNoValue\<close> only when there is none.
\<close>

lemma Update_keeps_vals:
  "vals (updated da k d) = vals da
   \<and> (err_of (Update da k d) = Ret None \<longrightarrow>
        0 \<le> Value (node_at (updated da k d) (got da k))
        \<and> (Jump (updated da k d) k 0 = Ret (got da k, None) \<longrightarrow>
             Get (updated da k d) k =
               (case vals da (Value (node_at (updated da k d) (got da k))) of
                  None \<Rightarrow> Ret (Inl ErrNoValue)
                | Some v \<Rightarrow> Ret (Inr (Val v)))))"
proof (cases "get da k 0")
  case Panic
  then show ?thesis
    by (simp add: updated_def Update_def err_of_def)
next
  case (Ret r)
  obtain da1 nid where r: "r = (da1, nid)" by (cases r)
  have g: "get da k 0 = Ret (da1, nid)" using Ret r by simp
  have v1: "vals da1 = vals da" using vals_get [OF g] .
  show ?thesis
  proof (cases "slot da1 nid")
    case None
    then show ?thesis
      using g by (simp add: updated_def Update_def err_of_def)
  next
    case (Some n)
    define s where "s = wrap64 (Value n + d)"
    show ?thesis
    proof (cases "s < 0 \<or> valueLimit \<le> s")
      case True
      then show ?thesis
        using g Some v1 by (auto simp: updated_def Update_def err_of_def Let_def s_def)
    next
      case False
      define da' where "da' = set_node da1 nid (n\<lparr>Value := s\<rparr>)"
      have u: "Update da k d = Ret (da', None)"
        using g Some False by (simp add: Update_def Let_def s_def da'_def)
      have upd: "updated da k d = da'"
        using u by (simp add: updated_def)
      have gt: "got da k = nid"
        using g by (simp add: got_def)
      have rng: "0 \<le> nid \<and> nid < capacity da1"
        using Some by (rule slot_Some_range)
      have sl: "slot da' nid = Some (n\<lparr>Value := s\<rparr>)"
        using rng by (simp add: da'_def set_node_def slot_def)
      have na: "node_at da' nid = n\<lparr>Value := s\<rparr>"
        using sl by (simp add: node_at_def)
      have "Get da' k = (case vals da s of None \<Rightarrow> Ret (Inl ErrNoValue) | Some v \<Rightarrow> Ret (Inr (Val v)))"
        if "Jump da' k 0 = Ret (nid, None)"
        using that sl False v1
        by (simp add: Get_def vKeyOf_def da'_def vals_simps split: option.splits)
      then show ?thesis
        using upd gt na False v1 by (simp add: da'_def vals_simps)
    qed
  qed
qed

text \<open>
  C8. \<open>Update\<close> stores its sum in the slot's value, where \<open>Get\<close> looks for a value-key, and
  unlike \<open>Insert\<close> it takes no fresh value-key. After \<open>Insert("x", 42)\<close> (value-key 0) and a
  successful \<open>Update("z", 1)\<close> on the never inserted key \<open>z\<close> (fresh node \<open>-1\<close>, plus 1),
  \<open>Get("z")\<close> does not return \<open>ErrNoValue\<close>: it returns 42, the value inserted under \<open>x\<close>.
  The numbers are those of this trie; by the lemma above the same happens in any state,
  whenever the sum that \<open>Update\<close> stores is a value-key in use.
\<close>

theorem Update_aliases_value_key:
  "err_of (Update (inserted NewCedar ''x'' (42 :: int)) ''z'' 1) = Ret None
   \<and> Get (updated (inserted NewCedar ''x'' 42) ''z'' 1) ''z'' = Ret (Inr (42 :: int))"
  by code_simp

section \<open>The wildcard scenarios\<close>

text \<open>
  Whatever else the trie holds: when the root has a \<open>*\<close> edge to a node that ends a key,
  \<open>FindOne\<close> of a non-empty key stops at that node in its first step.
\<close>

lemma FindOne_loop_root_star:
  assumes "hasLabel da 0 star" and "isEnd da (child da 0 star)" and "key \<noteq> []"
  shows "FindOne_loop da key (int (length key) - 1) [(0, 0)] [] = Some (Some (child da 0 star))"
proof -
  have e: "\<not> 0 > int (length key) - 1"
    using assms(3) by (cases key) simp_all
  have "FindOne_inner da key (int (length key) - 1) None 0 0 [] [] = Some (Found (child da 0 star))"
    using assms(1,2) e by (subst FindOne_inner.simps) (simp add: Let_def)
  then show ?thesis
    by (subst FindOne_loop.simps) simp
qed

text \<open>
  C2. The repository's test inserts \<open>aaa*bbb*ccc\<close> with value 100 and \<open>*\<close> with value 101
  and expects \<open>FindOne("aaaabbbbcccc")\<close> to be 100. The search returns 101: at the root, before
  any byte is read, it finds the \<open>*\<close> edge of the root, whose child ends the inserted key
  \<open>*\<close>, and stops there.
\<close>

theorem FindOne_returns_bare_star:
  "err_of (Insert (NewCedar :: int Cedar) ''aaa*bbb*ccc'' 100) = Ret None
   \<and> err_of (Insert (inserted NewCedar ''aaa*bbb*ccc'' 100) ''*'' (101 :: int)) = Ret None
   \<and> FindOne (inserted (inserted NewCedar ''aaa*bbb*ccc'' 100) ''*'' 101) ''aaaabbbbcccc''
       = Some (Ret (Inr (101 :: int)))"
  unfolding FindOne_def
  apply code_simp
  apply (subst FindOne_loop.simps)
  apply code_simp
  done

lemma report_length:
  "report da n cbs = Some (Ret cbs') \<Longrightarrow> length cbs' \<le> length cbs + 1"
  by (auto simp: report_def split: res.splits sum.splits option.splits)

lemma FindAll_loop_empty: "FindAll_loop da key e [] m cbs = Some (Ret cbs)"
  by (subst FindAll_loop.simps) simp

lemma chase_all_none: "\<not> hasLabel da n star \<Longrightarrow> chase_all da n cbs = Some (Ret cbs)"
  by (subst chase_all.simps) simp

lemma star_neq: "CHR ''a'' \<noteq> star" "CHR ''b'' \<noteq> star" "CHR ''c'' \<noteq> star"
  by (simp_all add: star_def)

text \<open>
  C3. In every trie that holds the patterns \<open>a*c\<close>, \<open>abc\<close> and \<open>a*\<close>, \<open>FindAll("abc")\<close> misses
  a match, wherever the end flag and the value-key of \<open>a*\<close> live. If the node of \<open>a*\<close>
  carries the end flag, that node is reported at the node of \<open>a\<close> and \<open>continue ssLoop\<close>
  leaves the walk with an empty stack: \<open>abc\<close> and \<open>a*c\<close> are never tried. Otherwise the
  walk reports the node of \<open>abc\<close> and then the node of \<open>a*c\<close>, and never looks at \<open>a*\<close>
  again. Either way the callback is invoked at most twice, not once for each of the three
  values.
\<close>

theorem FindAll_abc_misses_a_pattern:
  assumes "abc_patterns da"
  shows "FindAll da ''abc'' =
           (if isEnd da (node_as da) then report da (node_as da) []
            else (case report da (node_abc da) [] of
                    Some (Ret cbs) \<Rightarrow> report da (node_asc da) cbs
                  | r \<Rightarrow> r))
         \<and> (\<forall>cbs. FindAll da ''abc'' = Some (Ret cbs) \<longrightarrow> length cbs \<le> 2)"
proof -
  let ?k = "''abc''"
  let ?A = "node_a da" and ?S = "node_as da" and ?B = "node_ab da"
  let ?C = "node_abc da" and ?SC = "node_asc da"
  from assms have r: "hasLabel da 0 CHR ''a''" "\<not> hasLabel da 0 star"
    and a: "hasLabel da ?A star" "hasLabel da ?A CHR ''b''"
    and b: "hasLabel da ?B CHR ''c''" "\<not> hasLabel da ?B star"
    and s: "hasLabel da ?S CHR ''c''" "\<not> hasLabel da ?S star"
    and l: "\<not> hasLabel da ?C star" "\<not> hasLabel da ?SC star"
    and e: "isEnd da ?C" "isEnd da ?SC"
    and s0: "?S \<noteq> 0"
    by (simp_all add: abc_patterns_def)
  have inner_s: "FindAll_inner da ?k 2 (Some 0) 2 ?S [(?S, 2)] m cbs =
      (case report da ?SC cbs of
         None \<Rightarrow> None
       | Some Panic \<Rightarrow> Some Panic
       | Some (Ret cbs2) \<Rightarrow> Some (Ret ([], m, cbs2)))" for m cbs
    using s l e
    by (subst FindAll_inner.simps)
      (simp add: Let_def star_neq chase_all_none node_asc_def [symmetric]
        split: option.splits res.splits)
  have inner_b: "FindAll_inner da ?k 2 None 2 ?B ss m cbs =
      (case report da ?C cbs of
         None \<Rightarrow> None
       | Some Panic \<Rightarrow> Some Panic
       | Some (Ret cbs2) \<Rightarrow> Some (Ret (ss, m, cbs2)))" for ss m cbs
    using b l e
    by (subst FindAll_inner.simps)
      (simp add: Let_def star_neq chase_all_none node_abc_def [symmetric]
        split: option.splits res.splits)
  have inner_a: "FindAll_inner da ?k 2 None 1 ?A [] [] [] =
      (if isEnd da ?S then
         (case report da ?S [] of
            None \<Rightarrow> None
          | Some Panic \<Rightarrow> Some Panic
          | Some (Ret cbs2) \<Rightarrow> Some (Ret ([], [?A], cbs2)))
       else FindAll_inner da ?k 2 None 2 ?B [(?S, 2)] [?A] [])"
    using a
    by (subst FindAll_inner.simps)
      (simp add: Let_def star_neq node_as_def [symmetric] node_ab_def [symmetric]
        split: option.splits res.splits)
  have inner_r: "FindAll_inner da ?k 2 None 0 0 [] [] [] = FindAll_inner da ?k 2 None 1 ?A [] [] []"
    using r
    by (subst FindAll_inner.simps) (simp add: Let_def star_neq node_a_def [symmetric])
  have loop_s: "FindAll_loop da ?k 2 [(?S, 2)] m cbs =
      (case report da ?SC cbs of
         None \<Rightarrow> None
       | Some Panic \<Rightarrow> Some Panic
       | Some (Ret cbs2) \<Rightarrow> Some (Ret cbs2))" for m cbs
    using s0
    by (subst FindAll_loop.simps)
      (simp add: Let_def inner_s FindAll_loop_empty split: option.splits res.splits)
  have start: "FindAll da ?k =
      (case FindAll_inner da ?k 2 None 0 0 [] [] [] of
         None \<Rightarrow> None
       | Some Panic \<Rightarrow> Some Panic
       | Some (Ret (ss', m', cbs')) \<Rightarrow> FindAll_loop da ?k 2 ss' m' cbs')"
    by (simp add: FindAll_def) (subst FindAll_loop.simps, simp add: Let_def)
  have eq: "FindAll da ?k =
           (if isEnd da ?S then report da ?S []
            else (case report da ?C [] of
                    Some (Ret cbs) \<Rightarrow> report da ?SC cbs
                  | r \<Rightarrow> r))"
    by (simp add: start inner_r inner_a inner_b loop_s FindAll_loop_empty
        split: option.splits res.splits)
  have "length cbs \<le> 2" if "FindAll da ?k = Some (Ret cbs)" for cbs
  proof (cases "isEnd da ?S")
    case True
    with that eq have "report da ?S [] = Some (Ret cbs)" by simp
    from report_length [OF this] show ?thesis by simp
  next
    case False
    with that eq obtain c1 where c1: "report da ?C [] = Some (Ret c1)"
      and c2: "report da ?SC c1 = Some (Ret cbs)"
      by (auto split: option.splits res.splits)
    from report_length [OF c1] report_length [OF c2] show ?thesis by simp
  qed
  with eq show ?thesis by blast
qed

text \<open>
  C3 on the trie built by the three \<open>Insert\<close>s of the claim: the value-key of \<open>a*\<close> lives
  in the child under label 0, and the callback is invoked for 2 and for 1, not for 3.
\<close>

theorem FindAll_abc_misses_a_pattern_witness:
  "abc_patterns (inserted (inserted (inserted (NewCedar :: int Cedar) ''a*c'' 1) ''abc'' 2) ''a*'' 3)
   \<and> FindAll (inserted (inserted (inserted (NewCedar :: int Cedar) ''a*c'' 1) ''abc'' 2) ''a*'' 3) ''abc''
       = Some (Ret [(2, ''abc''), (1, ''a*c'')])"
proof -
  let ?da = "inserted (inserted (inserted (NewCedar :: int Cedar) ''a*c'' 1) ''abc'' 2) ''a*'' 3"
  have h: "abc_patterns ?da"
    by code_simp
  have ne: "\<not> isEnd ?da (node_as ?da)"
    by code_simp
  have r1: "report ?da (node_abc ?da) [] = Some (Ret [(2, ''abc'')])"
    unfolding report_def Key_def
    apply code_simp
    apply (subst Key_loop.simps)
    apply code_simp
    apply (subst Key_loop.simps)
    apply code_simp
    apply (subst Key_loop.simps)
    apply code_simp
    apply (subst Key_loop.simps)
    apply code_simp
    done
  have r2: "report ?da (node_asc ?da) [(2, ''abc'')] = Some (Ret [(2, ''abc''), (1, ''a*c'')])"
    unfolding report_def Key_def
    apply code_simp
    apply (subst Key_loop.simps)
    apply code_simp
    apply (subst Key_loop.simps)
    apply code_simp
    apply (subst Key_loop.simps)
    apply code_simp
    apply (subst Key_loop.simps)
    apply code_simp
    done
  have "FindAll ?da ''abc'' = Some (Ret [(2, ''abc''), (1, ''a*c'')])"
    using FindAll_abc_misses_a_pattern [OF h] ne r1 r2 by simp
  with h show ?thesis by simp
qed

text \<open>
  The same trie with the end flag set on the node of \<open>a*\<close> itself: the callback is invoked
  for 3 only.
\<close>

lemma FindAll_abc_end_flag_on_node:
  "FindAll
     (set_info (inserted (inserted (inserted (NewCedar :: int Cedar) ''a*c'' 1) ''abc'' 2) ''a*'' 3)
        (node_as (inserted (inserted (inserted (NewCedar :: int Cedar) ''a*c'' 1) ''abc'' 2) ''a*'' 3))
        ((info_at (inserted (inserted (inserted (NewCedar :: int Cedar) ''a*c'' 1) ''abc'' 2) ''a*'' 3)
            (node_as (inserted (inserted (inserted (NewCedar :: int Cedar) ''a*c'' 1) ''abc'' 2) ''a*'' 3)))
           \<lparr>End := True\<rparr>))
     ''abc''
   = Some (Ret [(3, ''a*'')])"
  unfolding FindAll_def
  apply code_simp
  apply (subst FindAll_loop.simps)
  apply code_simp
  apply (subst Key_loop.simps)
  apply code_simp
  apply (subst Key_loop.simps)
  apply code_simp
  apply (subst Key_loop.simps)
  apply code_simp
  apply (subst FindAll_loop.simps)
  apply code_simp
  done

section \<open>Keys that extend a stored key\<close>

text \<open>
  The scenario of spec 8 (1) and of the comment of \<open>Jump\<close> in \<open>api.go\<close>: with \<open>ab\<close>, \<open>abc\<close> and
  \<open>abcd\<close> inserted, \<open>Jump\<close> passes the nodes of the stored keys \<open>ab\<close> and \<open>abc\<close>, whose
  value-keys live in their children under label 0, and \<open>Get\<close> reads all three values back.
\<close>

lemma Jump_passes_stored_keys:
  "passes_stored_keys (inserted (inserted (inserted NewCedar ''ab'' 23) ''abc'' 19) ''abcd'' 37)"
  by code_simp

section \<open>Keys that end in a zero byte\<close>

text \<open>
  Label 0 is the label of the terminal child, so the walk of \<open>Get\<close> for a key \<open>k\<close> followed
  by a zero byte ends at the very node in which \<open>vKeyOf\<close> looks for the value-key of \<open>k\<close>.
  In every state, if \<open>Get\<close> finds a value for \<open>k\<close> followed by a zero byte, then \<open>Get(k)\<close>
  returns that same value or \<open>ErrNoValue\<close>: the two keys cannot hold different values.
  This follows from \<open>Jump\<close>, \<open>vKeyOf\<close> and \<open>Get\<close> of \<open>api.go\<close> alone.
\<close>

lemma Get_zero_suffix:
  assumes "Get da (k @ [nul]) = Ret (Inr v)"
  shows "Get da k = Ret (Inr v) \<or> Get da k = Ret (Inl ErrNoValue)"
proof -
  from assms obtain t where j: "Jump_loop da (k @ [nul]) 0 0 = Ret (t, None)"
    by (auto simp: Get_def Jump_def split: res.splits prod.splits option.splits)
  from Jump_loop_snoc [OF j] obtain mid n m
    where mid: "Jump_loop da k 0 0 = Ret (mid, None)"
      and n: "slot da mid = Some n" "Value n < 0"
      and t: "t = Base n XOR of_char nul"
      and m: "slot da t = Some m" "Check m = mid"
    by blast
  have t': "t = Base n"
    using t by (simp add: nul_def)
  show ?thesis
  proof (cases "0 \<le> Value m")
    case True
    have "vKeyOf da t = Ret (Inr (Value m))"
      using m True by (simp add: vKeyOf_def)
    moreover have "vKeyOf da mid = Ret (Inr (Value m))"
      using n m True by (simp add: vKeyOf_def t' [symmetric])
    ultimately have "Get da k = Get da (k @ [nul])"
      using j mid by (simp add: Get_def Jump_def)
    with assms show ?thesis by simp
  next
    case False
    have "vKeyOf da mid = Ret (Inl ErrNoValue)"
      using n m False by (simp add: vKeyOf_def t' [symmetric])
    then show ?thesis
      using mid by (simp add: Get_def Jump_def)
  qed
qed

text \<open>
  On the trie built by \<open>Insert\<close> of the key \<open>a\<close> followed by a zero byte with value 1, then
  \<open>Insert("a", 2)\<close>, both keys read 2.
\<close>

lemma Get_zero_suffix_example:
  "zero_suffix_alias (inserted (inserted NewCedar (''a'' @ [nul]) 1) ''a'' 2)"
  by code_simp

section \<open>Deleting the last key\<close>

text \<open>
  C4. After \<open>Insert("x", 1)\<close> into the empty cedar, \<open>Delete("x")\<close> does not return: the
  node of \<open>x\<close> has no sibling and is the first child of the root, so the loop releases it and
  goes on with the root, whose \<open>Check\<close> is the sentinel \<open>-1\<close>; \<open>da.array[-1]\<close> is an index out
  of range. The same happens whenever a \<open>Delete\<close> empties the trie.
\<close>

theorem Delete_last_key_panics:
  "err_of (Insert (NewCedar :: int Cedar) ''x'' 1) = Ret None
   \<and> map_option err_of (Delete (inserted NewCedar ''x'' (1 :: int)) ''x'') = Some Panic"
  unfolding Delete_def
  apply code_simp
  apply (subst Delete_loop.simps)
  apply code_simp
  apply (subst Delete_loop.simps)
  apply code_simp
  done

section \<open>PrefixPredict on the empty cedar\<close>

text \<open>
  C9. \<open>begin\<close> always yields a node and \<open>PrefixPredict\<close> appends it without testing that it
  carries a value (as \<open>PrefixMatch\<close> does with \<open>vKeyOf\<close>). On the empty cedar, where no key
  has the empty string as a prefix, \<open>PrefixPredict("", 0)\<close> returns the root's id.
\<close>

theorem PrefixPredict_empty_cedar:
  "PrefixPredict (NewCedar :: int Cedar) [] 0 = Some (Ret [0])"
  unfolding PrefixPredict_def cedar_begin_def
  apply code_simp
  apply (subst begin_loop.simps)
  apply code_simp
  apply (subst PrefixPredict_loop.simps)
  apply (simp add: cedar_next_def)
  apply code_simp
  apply (subst next_loop.simps)
  apply code_simp
  done

end
